theory Spec2Isabelle
  imports Main "HOL-Library.Word"
begin

unbundle bit_operations_syntax

section \<open>The kqueue pollset backend (poll/unix/kqueue.c)\<close>

text \<open>
  A shallow embedding of the kqueue strategy of the pollset: the translation of native
  events (\<^verbatim>\<open>get_kqueue_revent\<close>), construction, and the three operations
  \<^verbatim>\<open>fspr_pollset_add\<close>, \<^verbatim>\<open>fspr_pollset_remove\<close> and
  \<^verbatim>\<open>fspr_pollset_poll\<close>. The pollset is a record that each operation takes and
  returns; the kernel event queue behind \<^verbatim>\<open>kqueue_fd\<close> is part of that record, and
  whether the kernel accepts a change, and what a wait delivers, are inputs of the
  operations. The ring lock is taken and released around each operation's ring work;
  the model runs one operation at a time.
\<close>

subsection \<open>Constants of the headers\<close>

text \<open>
  Modelled from the spec: the portable event bits (\<^verbatim>\<open>APR_POLLIN\<close>, \<^verbatim>\<open>APR_POLLOUT\<close>,
  \<^verbatim>\<open>APR_POLLERR\<close>, \<^verbatim>\<open>APR_POLLHUP\<close>), the pollset flag
  \<^verbatim>\<open>APR_POLLSET_THREADSAFE\<close> and the native filters and flags (\<^verbatim>\<open>EVFILT_READ\<close>,
  \<^verbatim>\<open>EVFILT_WRITE\<close>, \<^verbatim>\<open>EV_ADD\<close>, \<^verbatim>\<open>EV_DELETE\<close>, \<^verbatim>\<open>EV_EOF\<close>, \<^verbatim>\<open>EV_ERROR\<close>) are
  declared in the poll header and in the system's event header, neither of which is among
  the sources. The spec names them as the members of the portable mask (readable,
  writable, hangup, error) and as the native read and write filters and end-of-file and
  error flags; the values below are those of the two headers' public interfaces. An
  \<^verbatim>\<open>fspr_int16_t\<close> is a 16-bit word; the filters are the 16-bit two's complement of
  -1 and -2.
\<close>

type_synonym int16 = "16 word"
type_synonym uint32 = "32 word"

definition APR_POLLIN :: int16 where "APR_POLLIN = 0x001"
definition APR_POLLOUT :: int16 where "APR_POLLOUT = 0x004"
definition APR_POLLERR :: int16 where "APR_POLLERR = 0x010"
definition APR_POLLHUP :: int16 where "APR_POLLHUP = 0x020"

definition APR_POLLSET_THREADSAFE :: uint32 where "APR_POLLSET_THREADSAFE = 0x100"

definition EVFILT_READ :: int16 where "EVFILT_READ = - 1"
definition EVFILT_WRITE :: int16 where "EVFILT_WRITE = - 2"

definition EV_ADD :: int16 where "EV_ADD = 0x0001"
definition EV_DELETE :: int16 where "EV_DELETE = 0x0002"
definition EV_ERROR :: int16 where "EV_ERROR = 0x4000"
definition EV_EOF :: int16 where "EV_EOF = 0x8000"

subsection \<open>Translation of a native event\<close>

text \<open>
  \<^verbatim>\<open>get_kqueue_revent\<close>: four independent tests, each adding one bit to \<^verbatim>\<open>rv\<close>.
\<close>

definition get_kqueue_revent :: "int16 \<Rightarrow> int16 \<Rightarrow> int16" where
  "get_kqueue_revent event flags =
     (let rv = 0;
          rv = (if event = EVFILT_READ then rv OR APR_POLLIN else rv);
          rv = (if event = EVFILT_WRITE then rv OR APR_POLLOUT else rv);
          rv = (if flags AND EV_EOF \<noteq> 0 then rv OR APR_POLLHUP else rv);
          rv = (if flags AND EV_ERROR \<noteq> 0 then rv OR APR_POLLERR else rv)
      in rv)"

subsection \<open>Statuses, descriptors, native events\<close>

text \<open>
  The statuses this file returns. \<^verbatim>\<open>fspr_get_netos_error()\<close> and the value 1 that
  construction returns when the mutex cannot be created are statuses of the operating
  system.
\<close>

datatype fspr_status =
  APR_SUCCESS | APR_ENOMEM | APR_NOTFOUND | APR_TIMEUP | APR_ENOTIMPL | APR_OS_ERROR int

datatype fspr_datatype_e = APR_NO_DESC | APR_POLL_SOCKET | APR_POLL_FILE | APR_POLL_LASTDESC

text \<open>
  The union \<^verbatim>\<open>fspr_descriptor\<close> holds one pointer, read as \<^verbatim>\<open>desc.s\<close> or as
  \<^verbatim>\<open>desc.f\<close>. \<open>addr\<close> is that pointer; \<open>socketdes\<close> and \<open>filedes\<close> are what the
  code reads through it (\<^verbatim>\<open>desc.s->socketdes\<close>, \<^verbatim>\<open>desc.f->filedes\<close>).
\<close>

record fspr_descriptor =
  addr :: nat
  socketdes :: int
  filedes :: int

record fspr_pollfd_t =
  desc_type :: fspr_datatype_e
  reqevents :: int16
  rtnevents :: int16
  desc :: fspr_descriptor
  client_data :: nat

text \<open>
  \<^verbatim>\<open>struct kevent\<close>. The user-data pointer \<open>udata\<close> is \<^verbatim>\<open>NULL\<close> (\<open>None\<close>) or the
  address of a \<^verbatim>\<open>pfd_elem_t\<close>; the records of a pollset are numbered in the order of
  their allocation from the pool, and the number stands for the address.
\<close>

record struct_kevent =
  ident :: int
  kfilter :: int16
  kflags :: int16
  fflags :: uint32
  data :: int
  udata :: "nat option"

definition EV_SET :: "int \<Rightarrow> int16 \<Rightarrow> int16 \<Rightarrow> uint32 \<Rightarrow> int \<Rightarrow> nat option \<Rightarrow> struct_kevent" where
  "EV_SET a b c d e f = \<lparr>ident = a, kfilter = b, kflags = c, fflags = d, data = e, udata = f\<rparr>"

record timespec =
  tv_sec :: int
  tv_nsec :: int

subsection \<open>The kernel queue\<close>

text \<open>
  The queue behind \<^verbatim>\<open>kqueue_fd\<close>: the watches it holds, by descriptor and filter, and
  the calls made on it, in order. A change that the kernel accepts registers its event
  (\<^verbatim>\<open>EV_ADD\<close>) or drops the watch (\<^verbatim>\<open>EV_DELETE\<close>) and the call returns 0; a change
  it rejects alters no watch and the call returns -1. Which changes the kernel accepts
  is the input \<open>accepts\<close> of an operation.
\<close>

datatype syscall = Change struct_kevent | Wait nat "timespec option"

record kqueue =
  watches :: "int \<times> int16 \<Rightarrow> struct_kevent option"
  issued :: "syscall list"

definition kevent_change :: "(struct_kevent \<Rightarrow> bool) \<Rightarrow> kqueue \<Rightarrow> struct_kevent \<Rightarrow> int \<times> kqueue" where
  "kevent_change accepts kq ke =
     (let kq = kq\<lparr>issued := issued kq @ [Change ke]\<rparr> in
      if \<not> accepts ke then (- 1, kq)
      else if kflags ke AND EV_ADD \<noteq> 0 then
        (0, kq\<lparr>watches := (watches kq)((ident ke, kfilter ke) := Some ke)\<rparr>)
      else if kflags ke AND EV_DELETE \<noteq> 0 then
        (0, kq\<lparr>watches := (watches kq)((ident ke, kfilter ke) := None)\<rparr>)
      else (0, kq))"

subsection \<open>The pollset\<close>

text \<open>
  \<^verbatim>\<open>struct fspr_pollset_t\<close>. The pool is the counter \<open>allocated\<close> of the
  \<^verbatim>\<open>pfd_elem_t\<close> records taken from it and the store \<open>elem_pfd\<close> of their \<^verbatim>\<open>pfd\<close>
  fields; a ring is the list of its records from first to last.
\<close>

record fspr_pollset_t =
  nelts :: uint32
  nalloc :: uint32
  kqueue_fd :: kqueue
  kevent :: struct_kevent
  ke_set :: "struct_kevent list"
  result_set :: "fspr_pollfd_t list"
  flags :: uint32
  allocated :: nat
  elem_pfd :: "nat \<Rightarrow> fspr_pollfd_t"
  query_ring :: "nat list"
  free_ring :: "nat list"
  dead_ring :: "nat list"

text \<open>Memory that the code has not written yet reads as these.\<close>

definition zero_kevent :: struct_kevent where
  "zero_kevent = EV_SET 0 0 0 0 0 None"

definition blank_pollfd :: fspr_pollfd_t where
  "blank_pollfd = \<lparr>desc_type = APR_NO_DESC, reqevents = 0, rtnevents = 0,
     desc = \<lparr>addr = 0, socketdes = 0, filedes = 0\<rparr>, client_data = 0\<rparr>"

definition new_kqueue :: kqueue where
  "new_kqueue = \<lparr>watches = (\<lambda>_. None), issued = []\<rparr>"

text \<open>
  \<^verbatim>\<open>fspr_pollset_create\<close>. \<open>has_threads\<close> is \<^verbatim>\<open>APR_HAS_THREADS\<close>, \<open>mutex_rv\<close> what
  \<^verbatim>\<open>fspr_thread_mutex_create\<close> returns and \<open>kqueue_ok\<close> whether \<^verbatim>\<open>kqueue()\<close> gives a
  descriptor. With threads, \<^verbatim>\<open>rv\<close> receives the value of the comparison
  \<^verbatim>\<open>... != APR_SUCCESS\<close>, so the failure status is 1. When \<^verbatim>\<open>kqueue()\<close> fails the
  function returns before the rings are initialised: no usable pollset.
\<close>

definition init_pollset :: "uint32 \<Rightarrow> uint32 \<Rightarrow> fspr_pollset_t" where
  "init_pollset sz flgs =
     \<lparr>nelts = 0, nalloc = sz, kqueue_fd = new_kqueue, kevent = zero_kevent,
      ke_set = replicate (unat sz) zero_kevent,
      result_set = replicate (unat sz) blank_pollfd,
      flags = flgs, allocated = 0, elem_pfd = (\<lambda>_. blank_pollfd),
      query_ring = [], free_ring = [], dead_ring = []\<rparr>"

definition fspr_pollset_create ::
  "bool \<Rightarrow> fspr_status \<Rightarrow> bool \<Rightarrow> uint32 \<Rightarrow> uint32 \<Rightarrow> fspr_status \<times> fspr_pollset_t option" where
  "fspr_pollset_create has_threads mutex_rv kqueue_ok sz flgs =
     (if has_threads \<and> flgs AND APR_POLLSET_THREADSAFE \<noteq> 0 \<and> mutex_rv \<noteq> APR_SUCCESS
        then (APR_OS_ERROR 1, None)
      else if \<not> has_threads \<and> flgs AND APR_POLLSET_THREADSAFE \<noteq> 0
        then (APR_ENOTIMPL, None)
      else if \<not> kqueue_ok then (APR_ENOMEM, None)
      else (APR_SUCCESS, Some (init_pollset sz flgs)))"

subsection \<open>Add\<close>

text \<open>
  \<^verbatim>\<open>EV_SET(&pollset->kevent, ...)\<close> followed by
  \<^verbatim>\<open>kevent(pollset->kqueue_fd, &pollset->kevent, 1, NULL, 0, NULL)\<close>; the result is what
  \<^verbatim>\<open>kevent\<close> returns.
\<close>

definition submit :: "(struct_kevent \<Rightarrow> bool) \<Rightarrow> struct_kevent \<Rightarrow> fspr_pollset_t \<Rightarrow> int \<times> fspr_pollset_t" where
  "submit accepts ke pollset =
     (let pollset = pollset\<lparr>kevent := ke\<rparr>;
          (r, kq) = kevent_change accepts (kqueue_fd pollset) (kevent pollset)
      in (r, pollset\<lparr>kqueue_fd := kq\<rparr>))"

definition os_fd :: "fspr_pollfd_t \<Rightarrow> int" where
  "os_fd descriptor =
     (if desc_type descriptor = APR_POLL_SOCKET then socketdes (desc descriptor)
      else filedes (desc descriptor))"

text \<open>
  The record an add works on: the first of the Free ring, unlinked from it, or a fresh
  record from the pool.
\<close>

definition take_elem :: "fspr_pollset_t \<Rightarrow> nat \<times> fspr_pollset_t" where
  "take_elem pollset =
     (if free_ring pollset \<noteq> [] then
        (hd (free_ring pollset), pollset\<lparr>free_ring := tl (free_ring pollset)\<rparr>)
      else (allocated pollset, pollset\<lparr>allocated := Suc (allocated pollset)\<rparr>))"

definition fspr_pollset_add ::
  "(struct_kevent \<Rightarrow> bool) \<Rightarrow> fspr_pollfd_t \<Rightarrow> fspr_pollset_t \<Rightarrow> fspr_status \<times> fspr_pollset_t" where
  "fspr_pollset_add accepts descriptor pollset =
     (let rv = APR_SUCCESS;
          (elem, pollset) = take_elem pollset;
          pollset = pollset\<lparr>elem_pfd := (elem_pfd pollset)(elem := descriptor)\<rparr>;
          fd = os_fd descriptor;
          (rv, pollset) =
            (if reqevents descriptor AND APR_POLLIN \<noteq> 0 then
               (let (r, pollset) =
                      submit accepts (EV_SET fd EVFILT_READ EV_ADD 0 0 (Some elem)) pollset
                in (if r = - 1 then APR_ENOMEM else rv, pollset))
             else (rv, pollset));
          (rv, pollset) =
            (if reqevents descriptor AND APR_POLLOUT \<noteq> 0 \<and> rv = APR_SUCCESS then
               (let (r, pollset) =
                      submit accepts (EV_SET fd EVFILT_WRITE EV_ADD 0 0 (Some elem)) pollset
                in (if r = - 1 then APR_ENOMEM else rv, pollset))
             else (rv, pollset))
      in if rv = APR_SUCCESS then
           (rv, pollset\<lparr>nelts := nelts pollset + 1, query_ring := query_ring pollset @ [elem]\<rparr>)
         else (rv, pollset\<lparr>free_ring := free_ring pollset @ [elem]\<rparr>))"

subsection \<open>Remove\<close>

text \<open>
  The scan of the Active ring, first to last, for the first record whose descriptor
  pointer is the given one.
\<close>

fun ring_find :: "(nat \<Rightarrow> fspr_pollfd_t) \<Rightarrow> nat \<Rightarrow> nat list \<Rightarrow> nat option" where
  "ring_find pfd a [] = None"
| "ring_find pfd a (ep # ring) =
     (if a = addr (desc (pfd ep)) then Some ep else ring_find pfd a ring)"

definition fspr_pollset_remove ::
  "(struct_kevent \<Rightarrow> bool) \<Rightarrow> fspr_pollfd_t \<Rightarrow> fspr_pollset_t \<Rightarrow> fspr_status \<times> fspr_pollset_t" where
  "fspr_pollset_remove accepts descriptor pollset =
     (let rv = APR_SUCCESS;
          fd = os_fd descriptor;
          (rv, pollset) =
            (if reqevents descriptor AND APR_POLLIN \<noteq> 0 then
               (let (r, pollset) =
                      submit accepts (EV_SET fd EVFILT_READ EV_DELETE 0 0 None) pollset
                in (if r = - 1 then APR_NOTFOUND else rv, pollset))
             else (rv, pollset));
          (rv, pollset) =
            (if reqevents descriptor AND APR_POLLOUT \<noteq> 0 \<and> rv = APR_SUCCESS then
               (let (r, pollset) =
                      submit accepts (EV_SET fd EVFILT_WRITE EV_DELETE 0 0 None) pollset
                in (if r = - 1 then APR_NOTFOUND else rv, pollset))
             else (rv, pollset));
          pollset =
            (case ring_find (elem_pfd pollset) (addr (desc descriptor)) (query_ring pollset) of
               None \<Rightarrow> pollset
             | Some ep \<Rightarrow>
                 pollset\<lparr>query_ring := remove1 ep (query_ring pollset),
                         dead_ring := dead_ring pollset @ [ep]\<rparr>)
      in (rv, pollset))"

subsection \<open>Poll\<close>

text \<open>
  Modelled from the spec: the macros \<^verbatim>\<open>fspr_time_sec\<close> and \<^verbatim>\<open>fspr_time_msec\<close> are
  declared in the time header, which is not among the sources. The spec gives the timeout
  as a signed count of time units; the macros are taken by their names and by that
  header's interface: an interval counts microseconds, \<^verbatim>\<open>fspr_time_sec\<close> is its whole
  seconds and \<^verbatim>\<open>fspr_time_msec\<close> the milliseconds within the second. The division is
  C's, which truncates towards zero.
\<close>

definition c_div :: "int \<Rightarrow> int \<Rightarrow> int" where
  "c_div a b = (if (a < 0) = (b < 0) then \<bar>a\<bar> div \<bar>b\<bar> else - (\<bar>a\<bar> div \<bar>b\<bar>))"

definition c_mod :: "int \<Rightarrow> int \<Rightarrow> int" where
  "c_mod a b = a - b * c_div a b"

definition APR_USEC_PER_SEC :: int where "APR_USEC_PER_SEC = 1000000"

definition fspr_time_sec :: "int \<Rightarrow> int" where
  "fspr_time_sec time = c_div time APR_USEC_PER_SEC"

definition fspr_time_msec :: "int \<Rightarrow> int" where
  "fspr_time_msec time = c_mod (c_div time 1000) 1000"

text \<open>
  The pointer \<^verbatim>\<open>tvptr\<close> that poll hands to the wait: \<^verbatim>\<open>NULL\<close> (\<open>None\<close>) for a
  negative timeout, else the address of \<^verbatim>\<open>tv\<close>. A \<^verbatim>\<open>long\<close> holds every value the
  two macros give for a 64-bit interval.
\<close>

definition poll_tvptr :: "int \<Rightarrow> timespec option" where
  "poll_tvptr timeout =
     (if timeout < 0 then None
      else Some \<lparr>tv_sec = fspr_time_sec timeout, tv_nsec = fspr_time_msec timeout\<rparr>)"

text \<open>
  The wait \<^verbatim>\<open>kevent(kqueue_fd, NULL, 0, ke_set, nalloc, tvptr)\<close>. What the kernel
  answers is an input: the count \<open>ret\<close> it returns and the events \<open>evs\<close> it writes to
  the front of the buffer \<^verbatim>\<open>ke_set\<close>, whose size does not change.
\<close>

definition kevent_wait ::
  "int \<Rightarrow> struct_kevent list \<Rightarrow> timespec option \<Rightarrow> fspr_pollset_t \<Rightarrow> int \<times> fspr_pollset_t" where
  "kevent_wait ret evs tvptr pollset =
     (ret, pollset\<lparr>
        ke_set := take (length (ke_set pollset)) evs @ drop (length evs) (ke_set pollset),
        kqueue_fd := (kqueue_fd pollset)\<lparr>issued :=
          issued (kqueue_fd pollset) @ [Wait (unat (nalloc pollset)) tvptr]\<rparr>\<rparr>)"

text \<open>
  What C leaves undefined: an index past the end of \<^verbatim>\<open>ke_set\<close> or \<^verbatim>\<open>result_set\<close>,
  and a user-data pointer that is \<^verbatim>\<open>NULL\<close> or is no record of the pool.
\<close>

datatype fault = BufferOverrun | BadTag

text \<open>
  The loop \<^verbatim>\<open>for (i = 0; i < ret; i++)\<close>; the first argument counts the iterations
  that remain, \<open>ret - i\<close>.
\<close>

primrec poll_fill :: "nat \<Rightarrow> nat \<Rightarrow> fspr_pollset_t \<Rightarrow> fault + fspr_pollset_t" where
  "poll_fill 0 i pollset = Inr pollset"
| "poll_fill (Suc k) i pollset =
     (if i < length (ke_set pollset) \<and> i < length (result_set pollset) then
        (case udata (ke_set pollset ! i) of
           None \<Rightarrow> Inl BadTag
         | Some e \<Rightarrow>
             if e < allocated pollset then
               poll_fill k (Suc i)
                 (pollset\<lparr>result_set := (result_set pollset)
                    [i := (elem_pfd pollset e)\<lparr>rtnevents :=
                       get_kqueue_revent (kfilter (ke_set pollset ! i))
                                         (kflags (ke_set pollset ! i))\<rparr>]\<rparr>)
             else Inl BadTag)
      else Inl BufferOverrun)"

text \<open>
  What poll gives back: the status, the value stored through \<^verbatim>\<open>num\<close> and, when it
  stores \<^verbatim>\<open>pollset->result_set\<close> through \<^verbatim>\<open>descriptors\<close>, the buffer that pointer
  shows.
\<close>

record poll_out =
  status :: fspr_status
  num :: int
  descriptors :: "fspr_pollfd_t list option"

text \<open>
  \<^verbatim>\<open>APR_RING_CONCAT(&free_ring, &dead_ring, ...)\<close>: the Dead ring is spliced after the
  last record of the Free ring and left empty.
\<close>

definition ring_concat :: "fspr_pollset_t \<Rightarrow> fspr_pollset_t" where
  "ring_concat pollset =
     pollset\<lparr>free_ring := free_ring pollset @ dead_ring pollset, dead_ring := []\<rparr>"

text \<open>
  \<^verbatim>\<open>fspr_pollset_poll\<close>. \<open>neterr\<close> is what \<^verbatim>\<open>fspr_get_netos_error()\<close> gives, \<open>want\<close>
  whether \<^verbatim>\<open>descriptors\<close> is not \<^verbatim>\<open>NULL\<close>.
\<close>

definition fspr_pollset_poll ::
  "int \<Rightarrow> struct_kevent list \<Rightarrow> fspr_status \<Rightarrow> int \<Rightarrow> bool \<Rightarrow> fspr_pollset_t
     \<Rightarrow> fault + (poll_out \<times> fspr_pollset_t)" where
  "fspr_pollset_poll ret evs neterr timeout want pollset =
     (let rv = APR_SUCCESS;
          tvptr = poll_tvptr timeout;
          (ret, pollset) = kevent_wait ret evs tvptr pollset
      in case
           (if ret < 0 then Inr (neterr, None, pollset)
            else if ret = 0 then Inr (APR_TIMEUP, None, pollset)
            else
              (case poll_fill (nat ret) 0 pollset of
                 Inl f \<Rightarrow> Inl f
               | Inr pollset \<Rightarrow>
                   Inr (rv, if want then Some (result_set pollset) else None, pollset)))
         of
           Inl f \<Rightarrow> Inl f
         | Inr (rv, ds, pollset) \<Rightarrow>
             Inr (\<lparr>status = rv, num = ret, descriptors = ds\<rparr>, ring_concat pollset))"

subsection \<open>Sequences of calls\<close>

datatype call =
  Add "struct_kevent \<Rightarrow> bool" fspr_pollfd_t
| Remove "struct_kevent \<Rightarrow> bool" fspr_pollfd_t
| Poll int "struct_kevent list" fspr_status int bool

fun run :: "call list \<Rightarrow> fspr_pollset_t \<Rightarrow> fault + fspr_pollset_t" where
  "run [] pollset = Inr pollset"
| "run (Add accepts descriptor # cs) pollset =
     run cs (snd (fspr_pollset_add accepts descriptor pollset))"
| "run (Remove accepts descriptor # cs) pollset =
     run cs (snd (fspr_pollset_remove accepts descriptor pollset))"
| "run (Poll ret evs neterr timeout want # cs) pollset =
     (case fspr_pollset_poll ret evs neterr timeout want pollset of
        Inl f \<Rightarrow> Inl f
      | Inr (out, pollset) \<Rightarrow> run cs pollset)"

subsection \<open>Well-formed answers of the wait, and the ring invariant\<close>

text \<open>
  An answer of the wait that the loop of poll can read: a positive count is covered by
  the events written, these fit both buffers, and each of the first \<open>ret\<close> events
  carries the address of a record of the pool.
\<close>

definition tag_ok :: "fspr_pollset_t \<Rightarrow> struct_kevent \<Rightarrow> bool" where
  "tag_ok pollset ke = (case udata ke of None \<Rightarrow> False | Some e \<Rightarrow> e < allocated pollset)"

definition wait_ok :: "int \<Rightarrow> struct_kevent list \<Rightarrow> fspr_pollset_t \<Rightarrow> bool" where
  "wait_ok ret evs pollset =
     (ret \<le> 0 \<or>
      (nat ret \<le> length evs \<and> length evs \<le> length (ke_set pollset) \<and>
       nat ret \<le> length (result_set pollset) \<and>
       list_all (tag_ok pollset) (take (nat ret) evs)))"

text \<open>The slot that poll writes for one native event.\<close>

definition slot_of :: "fspr_pollset_t \<Rightarrow> struct_kevent \<Rightarrow> fspr_pollfd_t" where
  "slot_of pollset ke =
     (case udata ke of
        None \<Rightarrow> blank_pollfd
      | Some e \<Rightarrow>
          (elem_pfd pollset e)\<lparr>rtnevents := get_kqueue_revent (kfilter ke) (kflags ke)\<rparr>)"

text \<open>
  Every record of the pool is on exactly one ring, once: the three rings together list
  the records \<open>0, ..., allocated - 1\<close> without repetition.
\<close>

definition all_rings :: "fspr_pollset_t \<Rightarrow> nat list" where
  "all_rings pollset = query_ring pollset @ dead_ring pollset @ free_ring pollset"

definition rings_exclusive :: "fspr_pollset_t \<Rightarrow> bool" where
  "rings_exclusive pollset =
     (distinct (all_rings pollset) \<and> set (all_rings pollset) = {0..<allocated pollset})"

subsection \<open>The changes that add and remove submit\<close>

text \<open>
  The event that add sets for one filter, tagged with its record, and the event that
  remove sets for one filter.
\<close>

definition watch_change :: "fspr_pollfd_t \<Rightarrow> int16 \<Rightarrow> nat \<Rightarrow> struct_kevent" where
  "watch_change descriptor filt elem = EV_SET (os_fd descriptor) filt EV_ADD 0 0 (Some elem)"

definition unwatch_change :: "fspr_pollfd_t \<Rightarrow> int16 \<Rightarrow> struct_kevent" where
  "unwatch_change descriptor filt = EV_SET (os_fd descriptor) filt EV_DELETE 0 0 None"

subsection \<open>Example inputs\<close>

text \<open>
  A pollset of capacity 4 created without the thread-safety flag, a socket at address 100
  with descriptor 7 and interest in reading and writing, the same socket with an empty
  mask, and three kernels: one that accepts every change, one that rejects every change,
  one that accepts changes of the read filter only.
\<close>

definition pollset4 :: fspr_pollset_t where
  "pollset4 = init_pollset 4 0"

definition sock7 :: fspr_pollfd_t where
  "sock7 = \<lparr>desc_type = APR_POLL_SOCKET, reqevents = APR_POLLIN OR APR_POLLOUT, rtnevents = 0,
     desc = \<lparr>addr = 100, socketdes = 7, filedes = 0\<rparr>, client_data = 0\<rparr>"

definition sock7_nomask :: fspr_pollfd_t where
  "sock7_nomask = sock7\<lparr>reqevents := 0\<rparr>"

definition accept_all :: "struct_kevent \<Rightarrow> bool" where
  "accept_all ke = True"

definition accept_none :: "struct_kevent \<Rightarrow> bool" where
  "accept_none ke = False"

definition accept_reads :: "struct_kevent \<Rightarrow> bool" where
  "accept_reads ke = (kfilter ke = EVFILT_READ)"

text \<open>
  The pollset after socket 7 was added, and after it was added and removed again; a
  native event of the read filter with the end-of-file flag, tagged with record 0; and a
  sequence of calls: two adds, a remove and a poll that times out.
\<close>

definition pollset4_added :: fspr_pollset_t where
  "pollset4_added = snd (fspr_pollset_add accept_all sock7 pollset4)"

definition pollset4_removed :: fspr_pollset_t where
  "pollset4_removed =
     snd (fspr_pollset_remove accept_all sock7 (snd (fspr_pollset_add accept_all sock7 pollset4)))"

definition read_event :: struct_kevent where
  "read_event = EV_SET 7 EVFILT_READ EV_EOF 0 0 (Some 0)"

definition example_calls :: "call list" where
  "example_calls =
     [Add accept_all sock7, Add accept_all sock7_nomask, Remove accept_all sock7,
      Poll 0 [] APR_SUCCESS 0 False]"

section \<open>Properties\<close>

subsection \<open>The native calls\<close>

lemma fst_kevent_change: "fst (kevent_change accepts kq ke) = (if accepts ke then 0 else - 1)"
  by (simp add: kevent_change_def Let_def)

lemma issued_kevent_change:
  "issued (snd (kevent_change accepts kq ke)) = issued kq @ [Change ke]"
  by (simp add: kevent_change_def Let_def)

lemma watches_kevent_change:
  "watches (snd (kevent_change accepts kq ke)) =
     (if \<not> accepts ke then watches kq
      else if kflags ke AND EV_ADD \<noteq> 0 then (watches kq)((ident ke, kfilter ke) := Some ke)
      else if kflags ke AND EV_DELETE \<noteq> 0 then (watches kq)((ident ke, kfilter ke) := None)
      else watches kq)"
  by (simp add: kevent_change_def Let_def)

lemma submit_eq:
  "submit accepts ke pollset =
     (if accepts ke then 0 else - 1,
      pollset\<lparr>kevent := ke, kqueue_fd := snd (kevent_change accepts (kqueue_fd pollset) ke)\<rparr>)"
  by (simp add: submit_def Let_def case_prod_beta fst_kevent_change)

lemmas example_defs =
  pollset4_def init_pollset_def sock7_def sock7_nomask_def accept_reads_def accept_none_def
  accept_all_def new_kqueue_def

lemmas op_defs =
  fspr_pollset_add_def fspr_pollset_remove_def Let_def case_prod_beta submit_eq take_elem_def
  issued_kevent_change watches_kevent_change watch_change_def unwatch_change_def EV_SET_def

subsection \<open>Event translation\<close>

lemmas poll_consts =
  APR_POLLIN_def APR_POLLOUT_def APR_POLLERR_def APR_POLLHUP_def
  EVFILT_READ_def EVFILT_WRITE_def EV_ADD_def EV_DELETE_def EV_ERROR_def EV_EOF_def

text \<open>
  C9. For every native event, the reported mask has the readable bit exactly when the
  filter is the read filter, the writable bit exactly when it is the write filter, the
  hangup bit exactly when the end-of-file flag is present and the error bit exactly when
  the error flag is present; one event with both flags reports both hangup and error.
\<close>

theorem get_kqueue_revent_bits:
  "((get_kqueue_revent event flgs AND APR_POLLIN \<noteq> 0) = (event = EVFILT_READ)) \<and>
   ((get_kqueue_revent event flgs AND APR_POLLOUT \<noteq> 0) = (event = EVFILT_WRITE)) \<and>
   ((get_kqueue_revent event flgs AND APR_POLLHUP \<noteq> 0) = (flgs AND EV_EOF \<noteq> 0)) \<and>
   ((get_kqueue_revent event flgs AND APR_POLLERR \<noteq> 0) = (flgs AND EV_ERROR \<noteq> 0)) \<and>
   get_kqueue_revent event (EV_EOF OR EV_ERROR) AND (APR_POLLHUP OR APR_POLLERR)
     = APR_POLLHUP OR APR_POLLERR"
  by (simp add: get_kqueue_revent_def Let_def poll_consts bit.conj_disj_distrib2)

subsection \<open>Add\<close>

text \<open>
  C1, as the code has it. For every add whose mask has both the readable and the writable
  bit, if a native registration fails then the call returns \<open>APR_ENOMEM\<close>, the record
  is put at the tail of the Free ring, the Active and Dead rings and the count are
  unchanged. When the read registration is the one that fails, the write registration is
  not attempted and the watches of the queue are as before the call. When the read
  registration succeeds and the write registration fails, no unwatch is issued: the two
  registrations are the only calls made, and the read watch stays registered, tagged
  with the record that is now on the Free ring.
\<close>

theorem add_failure:
  assumes "reqevents d AND APR_POLLIN \<noteq> 0" and "reqevents d AND APR_POLLOUT \<noteq> 0"
    and "\<not> (accepts (watch_change d EVFILT_READ (fst (take_elem s))) \<and>
            accepts (watch_change d EVFILT_WRITE (fst (take_elem s))))"
  shows "fst (fspr_pollset_add accepts d s) = APR_ENOMEM \<and>
         query_ring (snd (fspr_pollset_add accepts d s)) = query_ring s \<and>
         dead_ring (snd (fspr_pollset_add accepts d s)) = dead_ring s \<and>
         free_ring (snd (fspr_pollset_add accepts d s)) =
           free_ring (snd (take_elem s)) @ [fst (take_elem s)] \<and>
         nelts (snd (fspr_pollset_add accepts d s)) = nelts s \<and>
         (if accepts (watch_change d EVFILT_READ (fst (take_elem s)))
          then watches (kqueue_fd (snd (fspr_pollset_add accepts d s))) =
                 (watches (kqueue_fd s))((os_fd d, EVFILT_READ) :=
                    Some (watch_change d EVFILT_READ (fst (take_elem s)))) \<and>
               issued (kqueue_fd (snd (fspr_pollset_add accepts d s))) =
                 issued (kqueue_fd s) @
                   [Change (watch_change d EVFILT_READ (fst (take_elem s))),
                    Change (watch_change d EVFILT_WRITE (fst (take_elem s)))]
          else watches (kqueue_fd (snd (fspr_pollset_add accepts d s))) = watches (kqueue_fd s) \<and>
               issued (kqueue_fd (snd (fspr_pollset_add accepts d s))) =
                 issued (kqueue_fd s) @
                   [Change (watch_change d EVFILT_READ (fst (take_elem s)))])"
  using assms by (auto simp: op_defs EV_ADD_def)

theorem add_failure_witness:
  "reqevents sock7 AND APR_POLLIN \<noteq> 0 \<and> reqevents sock7 AND APR_POLLOUT \<noteq> 0 \<and>
   accept_reads (watch_change sock7 EVFILT_READ 0) \<and>
   \<not> accept_reads (watch_change sock7 EVFILT_WRITE 0) \<and>
   fst (fspr_pollset_add accept_reads sock7 pollset4) = APR_ENOMEM \<and>
   query_ring (snd (fspr_pollset_add accept_reads sock7 pollset4)) = [] \<and>
   free_ring (snd (fspr_pollset_add accept_reads sock7 pollset4)) = [0] \<and>
   nelts (snd (fspr_pollset_add accept_reads sock7 pollset4)) = 0 \<and>
   watches (kqueue_fd (snd (fspr_pollset_add accept_reads sock7 pollset4))) (7, EVFILT_READ) =
     Some (watch_change sock7 EVFILT_READ 0) \<and>
   watches (kqueue_fd (snd (fspr_pollset_add accept_reads sock7 pollset4))) (7, EVFILT_WRITE) =
     None"
proof -
  have e: "fst (take_elem pollset4) = 0" "free_ring (snd (take_elem pollset4)) = []"
    by (simp_all add: take_elem_def example_defs)
  have r: "reqevents sock7 AND APR_POLLIN \<noteq> 0" "reqevents sock7 AND APR_POLLOUT \<noteq> 0"
    by (simp_all add: example_defs poll_consts)
  have a: "accept_reads (watch_change sock7 EVFILT_READ 0)"
    "\<not> accept_reads (watch_change sock7 EVFILT_WRITE 0)"
    by (simp_all add: example_defs watch_change_def EV_SET_def poll_consts)
  have f: "os_fd sock7 = 7" by (simp add: os_fd_def example_defs)
  from a have h: "\<not> (accept_reads (watch_change sock7 EVFILT_READ (fst (take_elem pollset4))) \<and>
                    accept_reads (watch_change sock7 EVFILT_WRITE (fst (take_elem pollset4))))"
    by (simp add: e)
  show ?thesis
    using add_failure [OF r h] a r
    by (simp add: e f) (simp add: example_defs poll_consts)
qed

text \<open>
  C1, as stated, fails: the kernel accepts the read registration of socket 7 and rejects
  the write registration. Add returns \<open>APR_ENOMEM\<close> with record 0 on the Free ring,
  and the queue still holds the read watch of descriptor 7 tagged with record 0.
\<close>

theorem add_leaves_read_watch:
  "fst (fspr_pollset_add accept_reads sock7 pollset4) = APR_ENOMEM \<and>
   watches (kqueue_fd (snd (fspr_pollset_add accept_reads sock7 pollset4))) (7, EVFILT_READ) =
     Some (EV_SET 7 EVFILT_READ EV_ADD 0 0 (Some 0)) \<and>
   free_ring (snd (fspr_pollset_add accept_reads sock7 pollset4)) = [0]"
  by (simp add: op_defs os_fd_def example_defs poll_consts)

text \<open>
  C10. For every add whose mask has neither the readable nor the writable bit, the call
  makes no native call (the queue, with its record of calls, is as before), returns
  success, puts the record, holding the descriptor, at the tail of the Active ring and
  adds one to the count.
\<close>

theorem add_empty_mask:
  assumes "reqevents d AND APR_POLLIN = 0" and "reqevents d AND APR_POLLOUT = 0"
  shows "fst (fspr_pollset_add accepts d s) = APR_SUCCESS \<and>
         kqueue_fd (snd (fspr_pollset_add accepts d s)) = kqueue_fd s \<and>
         query_ring (snd (fspr_pollset_add accepts d s)) = query_ring s @ [fst (take_elem s)] \<and>
         nelts (snd (fspr_pollset_add accepts d s)) = nelts s + 1 \<and>
         elem_pfd (snd (fspr_pollset_add accepts d s)) (fst (take_elem s)) = d"
  using assms by (simp add: op_defs)

theorem add_empty_mask_witness:
  "reqevents sock7_nomask AND APR_POLLIN = 0 \<and> reqevents sock7_nomask AND APR_POLLOUT = 0 \<and>
   fst (fspr_pollset_add accept_none sock7_nomask pollset4) = APR_SUCCESS \<and>
   issued (kqueue_fd (snd (fspr_pollset_add accept_none sock7_nomask pollset4))) = [] \<and>
   query_ring (snd (fspr_pollset_add accept_none sock7_nomask pollset4)) = [0] \<and>
   nelts (snd (fspr_pollset_add accept_none sock7_nomask pollset4)) = 1"
proof -
  have r: "reqevents sock7_nomask AND APR_POLLIN = 0" "reqevents sock7_nomask AND APR_POLLOUT = 0"
    by (simp_all add: example_defs)
  have e: "fst (take_elem pollset4) = 0" "query_ring pollset4 = []" "nelts pollset4 = 0"
    "issued (kqueue_fd pollset4) = []"
    by (simp_all add: take_elem_def example_defs)
  show ?thesis
    using add_empty_mask [OF r, of accept_none pollset4] r by (simp add: e)
qed

subsection \<open>Remove\<close>

text \<open>
  C3, as the code has it. Remove returns the status of its unwatches: \<open>APR_NOTFOUND\<close>
  when the read unwatch is issued and fails, or when the write unwatch is issued and
  fails, and success otherwise. The rings do not bear on the status: a descriptor that
  no Active record matches leaves all three rings as they were, a matched record moves
  from the Active ring to the tail of the Dead ring, and the count is not changed.
\<close>

theorem remove_status:
  "fst (fspr_pollset_remove accepts d s) =
     (if reqevents d AND APR_POLLIN \<noteq> 0 \<and> \<not> accepts (unwatch_change d EVFILT_READ)
        then APR_NOTFOUND
      else if reqevents d AND APR_POLLOUT \<noteq> 0 \<and> \<not> accepts (unwatch_change d EVFILT_WRITE)
        then APR_NOTFOUND
      else APR_SUCCESS) \<and>
   query_ring (snd (fspr_pollset_remove accepts d s)) =
     (case ring_find (elem_pfd s) (addr (desc d)) (query_ring s) of
        None \<Rightarrow> query_ring s | Some ep \<Rightarrow> remove1 ep (query_ring s)) \<and>
   dead_ring (snd (fspr_pollset_remove accepts d s)) =
     (case ring_find (elem_pfd s) (addr (desc d)) (query_ring s) of
        None \<Rightarrow> dead_ring s | Some ep \<Rightarrow> dead_ring s @ [ep]) \<and>
   free_ring (snd (fspr_pollset_remove accepts d s)) = free_ring s \<and>
   nelts (snd (fspr_pollset_remove accepts d s)) = nelts s"
  by (simp add: op_defs split: option.split)

text \<open>
  C3, as stated, fails: the kernel rejects the unwatch of socket 7, which was never
  added, and remove returns \<open>APR_NOTFOUND\<close>, not success.
\<close>

theorem remove_surfaces_notfound:
  "fst (fspr_pollset_remove accept_none sock7 pollset4) = APR_NOTFOUND"
  by (simp add: op_defs os_fd_def example_defs poll_consts)

text \<open>
  C7, as the code has it. For every remove whose mask has both the readable and the
  writable bit, the read unwatch is issued; the write unwatch is issued after it exactly
  when the read unwatch succeeded.
\<close>

theorem remove_unwatches:
  assumes "reqevents d AND APR_POLLIN \<noteq> 0" and "reqevents d AND APR_POLLOUT \<noteq> 0"
  shows "issued (kqueue_fd (snd (fspr_pollset_remove accepts d s))) =
           issued (kqueue_fd s) @
             (if accepts (unwatch_change d EVFILT_READ)
              then [Change (unwatch_change d EVFILT_READ), Change (unwatch_change d EVFILT_WRITE)]
              else [Change (unwatch_change d EVFILT_READ)])"
  using assms by (simp add: op_defs split: option.split)

theorem remove_unwatches_witness:
  "reqevents sock7 AND APR_POLLIN \<noteq> 0 \<and> reqevents sock7 AND APR_POLLOUT \<noteq> 0 \<and>
   issued (kqueue_fd (snd (fspr_pollset_remove accept_all sock7 pollset4))) =
     [Change (unwatch_change sock7 EVFILT_READ), Change (unwatch_change sock7 EVFILT_WRITE)]"
proof -
  have r: "reqevents sock7 AND APR_POLLIN \<noteq> 0" "reqevents sock7 AND APR_POLLOUT \<noteq> 0"
    by (simp_all add: example_defs poll_consts)
  have e: "issued (kqueue_fd pollset4) = []"
    by (simp add: example_defs)
  show ?thesis
    using remove_unwatches [OF r, of accept_all pollset4] r by (simp add: e accept_all_def)
qed

text \<open>
  C7, as stated, fails: both bits are set in the mask of socket 7 and the kernel rejects
  the read unwatch; the only call that remove makes is that read unwatch.
\<close>

theorem remove_skips_write_unwatch:
  "issued (kqueue_fd (snd (fspr_pollset_remove accept_none sock7 pollset4))) =
     [Change (EV_SET 7 EVFILT_READ EV_DELETE 0 0 None)]"
  by (simp add: op_defs os_fd_def example_defs poll_consts)

subsection \<open>The count\<close>

text \<open>
  C2 at a concrete input: socket 7 is added to the fresh pollset and removed again, both
  calls succeeding. The Active ring is empty and record 0 is on the Dead ring, but the
  count \<open>nelts\<close> is still 1: remove does not decrement what add incremented.
\<close>

theorem add_remove_count:
  "fst (fspr_pollset_add accept_all sock7 pollset4) = APR_SUCCESS \<and>
   fst (fspr_pollset_remove accept_all sock7 (snd (fspr_pollset_add accept_all sock7 pollset4)))
     = APR_SUCCESS \<and>
   query_ring (snd (fspr_pollset_remove accept_all sock7
     (snd (fspr_pollset_add accept_all sock7 pollset4)))) = [] \<and>
   dead_ring (snd (fspr_pollset_remove accept_all sock7
     (snd (fspr_pollset_add accept_all sock7 pollset4)))) = [0] \<and>
   nelts (snd (fspr_pollset_remove accept_all sock7
     (snd (fspr_pollset_add accept_all sock7 pollset4)))) = 1"
  by (simp add: op_defs os_fd_def example_defs poll_consts)

subsection \<open>Poll\<close>

text \<open>
  The loop of poll changes the result buffer only, and on a well-formed answer of the
  wait it runs to its end, writing slot \<open>j\<close> from event \<open>j\<close>.
\<close>

lemma slot_of_result_set [simp]: "slot_of (s\<lparr>result_set := rs\<rparr>) ke = slot_of s ke"
  by (simp add: slot_of_def split: option.split)

lemma tag_ok_result_set [simp]: "tag_ok (s\<lparr>result_set := rs\<rparr>) ke = tag_ok s ke"
  by (simp add: tag_ok_def split: option.split)

lemma poll_fill_shape:
  "poll_fill k i s = Inr s' \<Longrightarrow> \<exists>rs. s' = s\<lparr>result_set := rs\<rparr>"
proof (induction k arbitrary: i s)
  case 0
  then have "s' = s\<lparr>result_set := result_set s\<rparr>" by simp
  then show ?case by blast
next
  case (Suc k)
  then show ?case
    by (fastforce split: if_splits option.splits)
qed

lemma poll_fill_ok:
  assumes "i + k \<le> length (ke_set s)" and "i + k \<le> length (result_set s)"
    and "\<forall>j. i \<le> j \<and> j < i + k \<longrightarrow> tag_ok s (ke_set s ! j)"
  shows "\<exists>rs. poll_fill k i s = Inr (s\<lparr>result_set := rs\<rparr>) \<and>
           length rs = length (result_set s) \<and>
           (\<forall>j < length rs. rs ! j =
              (if i \<le> j \<and> j < i + k then slot_of s (ke_set s ! j) else result_set s ! j))"
  using assms
proof (induction k arbitrary: i s)
  case 0
  have "poll_fill 0 i s = Inr (s\<lparr>result_set := result_set s\<rparr>)" by simp
  then show ?case by (intro exI [of _ "result_set s"]) auto
next
  case (Suc k)
  from Suc.prems have t: "tag_ok s (ke_set s ! i)" by simp
  then obtain e where e: "udata (ke_set s ! i) = Some e" "e < allocated s"
    by (auto simp: tag_ok_def split: option.splits)
  define s1 where "s1 = s\<lparr>result_set := (result_set s)[i := slot_of s (ke_set s ! i)]\<rparr>"
  have step: "poll_fill (Suc k) i s = poll_fill k (Suc i) s1"
    using Suc.prems e by (simp add: s1_def slot_of_def)
  have p1: "Suc i + k \<le> length (ke_set s1)" "Suc i + k \<le> length (result_set s1)"
    "\<forall>j. Suc i \<le> j \<and> j < Suc i + k \<longrightarrow> tag_ok s1 (ke_set s1 ! j)"
    using Suc.prems by (simp_all add: s1_def)
  from Suc.IH [OF p1] obtain rs where rs:
    "poll_fill k (Suc i) s1 = Inr (s1\<lparr>result_set := rs\<rparr>)"
    "length rs = length (result_set s1)"
    "\<forall>j < length rs. rs ! j =
       (if Suc i \<le> j \<and> j < Suc i + k then slot_of s1 (ke_set s1 ! j) else result_set s1 ! j)"
    by blast
  have "poll_fill (Suc k) i s = Inr (s\<lparr>result_set := rs\<rparr>)"
    using step rs(1) by (simp add: s1_def)
  moreover have "length rs = length (result_set s)"
    using rs(2) by (simp add: s1_def)
  moreover have "\<forall>j < length rs. rs ! j =
       (if i \<le> j \<and> j < i + Suc k then slot_of s (ke_set s ! j) else result_set s ! j)"
  proof (intro allI impI)
    fix j assume j: "j < length rs"
    show "rs ! j = (if i \<le> j \<and> j < i + Suc k then slot_of s (ke_set s ! j) else result_set s ! j)"
    proof (cases "j = i")
      case True
      with rs(3) j rs(2) show ?thesis by (simp add: s1_def)
    next
      case False
      with rs(3) j show ?thesis by (auto simp: s1_def)
    qed
  qed
  ultimately show ?case by blast
qed

lemma kevent_wait_fields:
  "fst (kevent_wait ret evs tvptr s) = ret"
  "query_ring (snd (kevent_wait ret evs tvptr s)) = query_ring s"
  "dead_ring (snd (kevent_wait ret evs tvptr s)) = dead_ring s"
  "free_ring (snd (kevent_wait ret evs tvptr s)) = free_ring s"
  "allocated (snd (kevent_wait ret evs tvptr s)) = allocated s"
  "nelts (snd (kevent_wait ret evs tvptr s)) = nelts s"
  "elem_pfd (snd (kevent_wait ret evs tvptr s)) = elem_pfd s"
  "result_set (snd (kevent_wait ret evs tvptr s)) = result_set s"
  "length (ke_set (snd (kevent_wait ret evs tvptr s))) = length (ke_set s)"
  "issued (kqueue_fd (snd (kevent_wait ret evs tvptr s))) =
     issued (kqueue_fd s) @ [Wait (unat (nalloc s)) tvptr]"
  by (simp_all add: kevent_wait_def)

lemma ke_set_kevent_wait:
  "length evs \<le> length (ke_set s) \<Longrightarrow> j < length evs \<Longrightarrow>
     ke_set (snd (kevent_wait ret evs tvptr s)) ! j = evs ! j"
  by (simp add: kevent_wait_def nth_append)

lemma slot_of_kevent_wait [simp]: "slot_of (snd (kevent_wait ret evs tvptr s)) ke = slot_of s ke"
  by (simp add: slot_of_def kevent_wait_def split: option.split)

lemma tag_ok_kevent_wait [simp]: "tag_ok (snd (kevent_wait ret evs tvptr s)) ke = tag_ok s ke"
  by (simp add: tag_ok_def kevent_wait_def split: option.split)

lemma poll_nonpositive:
  "ret \<le> 0 \<Longrightarrow>
     fspr_pollset_poll ret evs neterr timeout want s =
       Inr (\<lparr>status = (if ret < 0 then neterr else APR_TIMEUP), num = ret, descriptors = None\<rparr>,
            ring_concat (snd (kevent_wait ret evs (poll_tvptr timeout) s)))"
  by (auto simp: fspr_pollset_poll_def Let_def case_prod_beta kevent_wait_fields)

lemma poll_positive:
  assumes "0 < ret" and "wait_ok ret evs s"
  shows "\<exists>rs. fspr_pollset_poll ret evs neterr timeout want s =
           Inr (\<lparr>status = APR_SUCCESS, num = ret,
                 descriptors = (if want then Some rs else None)\<rparr>,
                ring_concat (snd (kevent_wait ret evs (poll_tvptr timeout) s)\<lparr>result_set := rs\<rparr>)) \<and>
         length rs = length (result_set s) \<and>
         take (nat ret) rs = map (slot_of s) (take (nat ret) evs)"
proof -
  define s1 where "s1 = snd (kevent_wait ret evs (poll_tvptr timeout) s)"
  from assms have w: "nat ret \<le> length evs" "length evs \<le> length (ke_set s)"
    "nat ret \<le> length (result_set s)" "list_all (tag_ok s) (take (nat ret) evs)"
    by (simp_all add: wait_ok_def)
  have ke: "ke_set s1 ! j = evs ! j" if "j < nat ret" for j
    using that w by (simp add: s1_def ke_set_kevent_wait)
  have t1: "tag_ok s1 ke = tag_ok s ke" for ke
    by (simp add: s1_def)
  have tags: "\<forall>j. 0 \<le> j \<and> j < 0 + nat ret \<longrightarrow> tag_ok s1 (ke_set s1 ! j)"
    using w(1,4) by (auto simp: ke t1 list_all_length)
  have "0 + nat ret \<le> length (ke_set s1)" "0 + nat ret \<le> length (result_set s1)"
    using w by (simp_all add: s1_def kevent_wait_fields)
  from poll_fill_ok [OF this tags] obtain rs where rs:
    "poll_fill (nat ret) 0 s1 = Inr (s1\<lparr>result_set := rs\<rparr>)"
    "length rs = length (result_set s1)"
    "\<forall>j < length rs. rs ! j =
       (if 0 \<le> j \<and> j < 0 + nat ret then slot_of s1 (ke_set s1 ! j) else result_set s1 ! j)"
    by blast
  have "take (nat ret) rs = map (slot_of s) (take (nat ret) evs)"
  proof (rule nth_equalityI)
    show "length (take (nat ret) rs) = length (map (slot_of s) (take (nat ret) evs))"
      using w rs(2) by (simp add: s1_def kevent_wait_fields)
  next
    fix j assume "j < length (take (nat ret) rs)"
    then have j: "j < nat ret" "j < length rs" by simp_all
    with rs(3) have "rs ! j = slot_of s1 (ke_set s1 ! j)" by simp
    also have "\<dots> = slot_of s1 (evs ! j)" using j(1) by (simp add: ke)
    also have "\<dots> = slot_of s (evs ! j)" by (simp add: s1_def)
    finally show "take (nat ret) rs ! j = map (slot_of s) (take (nat ret) evs) ! j"
      using j w(1) by simp
  qed
  moreover have "fspr_pollset_poll ret evs neterr timeout want s =
      Inr (\<lparr>status = APR_SUCCESS, num = ret, descriptors = (if want then Some rs else None)\<rparr>,
           ring_concat (s1\<lparr>result_set := rs\<rparr>))"
    using assms(1) rs(1)
    by (simp add: fspr_pollset_poll_def Let_def case_prod_beta kevent_wait_fields s1_def)
  moreover have "length rs = length (result_set s)"
    using rs(2) by (simp add: s1_def kevent_wait_fields)
  ultimately show ?thesis unfolding s1_def by blast
qed

lemma pollset4_added_fields:
  "allocated pollset4_added = 1" "elem_pfd pollset4_added 0 = sock7"
  "length (ke_set pollset4_added) = 4" "length (result_set pollset4_added) = 4"
  "query_ring pollset4_added = [0]" "dead_ring pollset4_added = []"
  "free_ring pollset4_added = []"
  by (simp_all add: pollset4_added_def op_defs os_fd_def example_defs poll_consts)

lemma pollset4_removed_fields:
  "allocated pollset4_removed = 1" "elem_pfd pollset4_removed 0 = sock7"
  "length (ke_set pollset4_removed) = 4" "length (result_set pollset4_removed) = 4"
  "query_ring pollset4_removed = []" "dead_ring pollset4_removed = [0]"
  "free_ring pollset4_removed = []"
  by (simp_all add: pollset4_removed_def op_defs os_fd_def example_defs poll_consts)

lemma wait_ok_examples:
  "wait_ok (- 1) [] s" "wait_ok 0 [] s"
  "wait_ok 1 [read_event] pollset4_added" "wait_ok 1 [read_event] pollset4_removed"
  by (simp_all add: wait_ok_def tag_ok_def read_event_def EV_SET_def
        pollset4_added_fields pollset4_removed_fields)

text \<open>
  C4. Every poll call that the kernel answers in a well-formed way returns, whether the
  count is negative (the native error), zero (timed out) or positive (success), and at
  its return the Dead ring is empty and the Free ring is the Free ring of before followed
  by the Dead ring of before, record for record: nothing is dropped or repeated. The
  Active ring and the pool are as before.
\<close>

theorem poll_splices_dead_onto_free:
  assumes "wait_ok ret evs s"
  shows "\<exists>out s'. fspr_pollset_poll ret evs neterr timeout want s = Inr (out, s') \<and>
           dead_ring s' = [] \<and>
           free_ring s' = free_ring s @ dead_ring s \<and>
           query_ring s' = query_ring s \<and> allocated s' = allocated s"
proof (cases "0 < ret")
  case True
  from poll_positive [OF True assms, of neterr timeout want] show ?thesis
    by (auto simp: ring_concat_def kevent_wait_fields)
next
  case False
  then show ?thesis
    by (simp add: poll_nonpositive ring_concat_def kevent_wait_fields)
qed

theorem poll_splices_dead_onto_free_witness:
  "wait_ok (- 1) [] pollset4_removed \<and> wait_ok 0 [] pollset4_removed \<and>
   wait_ok 1 [read_event] pollset4_removed \<and>
   dead_ring pollset4_removed = [0] \<and> free_ring pollset4_removed = [] \<and>
   (case fspr_pollset_poll (- 1) [] (APR_OS_ERROR 4) (- 1) False pollset4_removed of
      Inl f \<Rightarrow> False
    | Inr (out, s') \<Rightarrow> dead_ring s' = [] \<and> free_ring s' = [0]) \<and>
   (case fspr_pollset_poll 0 [] APR_SUCCESS 0 False pollset4_removed of
      Inl f \<Rightarrow> False
    | Inr (out, s') \<Rightarrow> dead_ring s' = [] \<and> free_ring s' = [0]) \<and>
   (case fspr_pollset_poll 1 [read_event] APR_SUCCESS 0 True pollset4_removed of
      Inl f \<Rightarrow> False
    | Inr (out, s') \<Rightarrow> dead_ring s' = [] \<and> free_ring s' = [0])"
  using
    poll_splices_dead_onto_free [of "- 1" "[]" pollset4_removed "APR_OS_ERROR 4" "- 1" False]
    poll_splices_dead_onto_free [of 0 "[]" pollset4_removed APR_SUCCESS 0 False]
    poll_splices_dead_onto_free [of 1 "[read_event]" pollset4_removed APR_SUCCESS 0 True]
    wait_ok_examples
  by (auto simp: pollset4_removed_fields)

text \<open>
  C6. Every poll call that the kernel answers in a well-formed way returns and stores the
  count through \<open>num\<close>. On a negative count the status is the translated native error;
  on zero it is \<open>APR_TIMEUP\<close> and \<open>num\<close> is 0; on a positive count \<open>N\<close> it is
  success, the first \<open>N\<close> slots of the result buffer are the descriptors of the records
  that the events' tags point to, each with the translation of its event as reported
  events, and \<open>descriptors\<close>, when asked for, shows the result buffer.
\<close>

theorem poll_outcome:
  assumes "wait_ok ret evs s"
  shows "\<exists>out s'. fspr_pollset_poll ret evs neterr timeout want s = Inr (out, s') \<and>
           num out = ret \<and>
           (if ret < 0 then status out = neterr \<and> descriptors out = None
            else if ret = 0 then status out = APR_TIMEUP \<and> num out = 0 \<and> descriptors out = None
            else status out = APR_SUCCESS \<and>
                 length (result_set s') = length (result_set s) \<and>
                 take (nat ret) (result_set s') = map (slot_of s) (take (nat ret) evs) \<and>
                 descriptors out = (if want then Some (result_set s') else None))"
proof (cases "0 < ret")
  case True
  from poll_positive [OF True assms, of neterr timeout want] obtain rs where rs:
    "fspr_pollset_poll ret evs neterr timeout want s =
       Inr (\<lparr>status = APR_SUCCESS, num = ret, descriptors = (if want then Some rs else None)\<rparr>,
            ring_concat (snd (kevent_wait ret evs (poll_tvptr timeout) s)\<lparr>result_set := rs\<rparr>))"
    "length rs = length (result_set s)"
    "take (nat ret) rs = map (slot_of s) (take (nat ret) evs)"
    by blast
  have "result_set (ring_concat (snd (kevent_wait ret evs (poll_tvptr timeout) s)\<lparr>result_set := rs\<rparr>)) = rs"
    by (simp add: ring_concat_def)
  with rs True show ?thesis
    by simp

next
  case False
  then show ?thesis
    by (simp add: poll_nonpositive)
qed

theorem poll_outcome_witness:
  "wait_ok (- 1) [] pollset4_added \<and> wait_ok 0 [] pollset4_added \<and>
   wait_ok 1 [read_event] pollset4_added \<and>
   (case fspr_pollset_poll (- 1) [] (APR_OS_ERROR 4) (- 1) True pollset4_added of
      Inl f \<Rightarrow> False
    | Inr (out, s') \<Rightarrow> status out = APR_OS_ERROR 4 \<and> num out = - 1) \<and>
   (case fspr_pollset_poll 0 [] APR_SUCCESS 0 True pollset4_added of
      Inl f \<Rightarrow> False
    | Inr (out, s') \<Rightarrow> status out = APR_TIMEUP \<and> num out = 0) \<and>
   (case fspr_pollset_poll 1 [read_event] APR_SUCCESS (- 1) True pollset4_added of
      Inl f \<Rightarrow> False
    | Inr (out, s') \<Rightarrow>
        status out = APR_SUCCESS \<and> num out = 1 \<and>
        take 1 (result_set s') = [sock7\<lparr>rtnevents := APR_POLLIN OR APR_POLLHUP\<rparr>] \<and>
        descriptors out = Some (result_set s'))"
proof -
  have slot: "slot_of pollset4_added read_event = sock7\<lparr>rtnevents := APR_POLLIN OR APR_POLLHUP\<rparr>"
    by (simp add: slot_of_def read_event_def EV_SET_def pollset4_added_fields
          get_kqueue_revent_def poll_consts)
  show ?thesis
    using
      poll_outcome [of "- 1" "[]" pollset4_added "APR_OS_ERROR 4" "- 1" True]
      poll_outcome [of 0 "[]" pollset4_added APR_SUCCESS 0 True]
      poll_outcome [of 1 "[read_event]" pollset4_added APR_SUCCESS "- 1" True]
      wait_ok_examples
    by (auto simp: slot)
qed

text \<open>
  The pointer handed to the wait: null for a negative timeout; for any other, the whole
  seconds, and in the nanoseconds field the milliseconds within the second.
\<close>

lemma poll_tvptr_negative: "timeout < 0 \<Longrightarrow> poll_tvptr timeout = None"
  by (simp add: poll_tvptr_def)

lemma poll_tvptr_nonneg:
  "0 \<le> timeout \<Longrightarrow> poll_tvptr timeout =
     Some \<lparr>tv_sec = timeout div 1000000, tv_nsec = (timeout div 1000) mod 1000\<rparr>"
  by (auto simp: poll_tvptr_def fspr_time_sec_def fspr_time_msec_def c_div_def c_mod_def
      APR_USEC_PER_SEC_def sgn_if minus_mult_div_eq_mod dest: pos_imp_zdiv_nonneg_iff [THEN iffD2, rotated])

text \<open>
  C8 at a concrete input: a timeout of 500000 microseconds, half a second. The
  \<^verbatim>\<open>timespec\<close> that poll hands to the wait has 0 seconds and 500 nanoseconds, not
  500000000: \<^verbatim>\<open>tv_nsec\<close> receives \<^verbatim>\<open>fspr_time_msec(timeout)\<close>, a count of
  milliseconds.
\<close>

theorem poll_half_second:
  "poll_tvptr 500000 = Some \<lparr>tv_sec = 0, tv_nsec = 500\<rparr> \<and>
   (case fspr_pollset_poll 0 [] APR_SUCCESS 500000 False pollset4 of
      Inl f \<Rightarrow> False
    | Inr (out, s') \<Rightarrow>
        issued (kqueue_fd s') = [Wait 4 (Some \<lparr>tv_sec = 0, tv_nsec = 500\<rparr>)])"
  by (simp add: fspr_pollset_poll_def kevent_wait_def ring_concat_def poll_tvptr_def
        fspr_time_sec_def fspr_time_msec_def c_div_def c_mod_def APR_USEC_PER_SEC_def
        Let_def example_defs)

subsection \<open>The rings\<close>

lemma rings_exclusive_init: "rings_exclusive (init_pollset sz flgs)"
  by (simp add: rings_exclusive_def all_rings_def init_pollset_def)

lemma take_elem_rings:
  assumes "rings_exclusive s"
  shows "distinct (all_rings (snd (take_elem s)))"
    and "fst (take_elem s) \<notin> set (all_rings (snd (take_elem s)))"
    and "insert (fst (take_elem s)) (set (all_rings (snd (take_elem s)))) =
           {0..<allocated (snd (take_elem s))}"
proof -
  show "distinct (all_rings (snd (take_elem s)))"
    using assms
    by (cases "free_ring s") (auto simp: rings_exclusive_def all_rings_def take_elem_def)
  show "fst (take_elem s) \<notin> set (all_rings (snd (take_elem s)))"
    using assms
    by (cases "free_ring s") (auto simp: rings_exclusive_def all_rings_def take_elem_def)
  show "insert (fst (take_elem s)) (set (all_rings (snd (take_elem s)))) =
           {0..<allocated (snd (take_elem s))}"
  proof (cases "free_ring s")
    case Nil
    with assms show ?thesis
      by (simp add: rings_exclusive_def all_rings_def take_elem_def atLeast0_lessThan_Suc)
  next
    case (Cons e es)
    with assms have "set (query_ring s) \<union> (set (dead_ring s) \<union> insert e (set es)) = {0..<allocated s}"
      by (simp add: rings_exclusive_def all_rings_def)
    with Cons show ?thesis
      by (simp add: all_rings_def take_elem_def)
  qed
qed

lemma add_rings:
  "all_rings (snd (fspr_pollset_add accepts d s)) =
     (if fst (fspr_pollset_add accepts d s) = APR_SUCCESS
      then query_ring (snd (take_elem s)) @ [fst (take_elem s)] @
           dead_ring (snd (take_elem s)) @ free_ring (snd (take_elem s))
      else all_rings (snd (take_elem s)) @ [fst (take_elem s)])"
  "allocated (snd (fspr_pollset_add accepts d s)) = allocated (snd (take_elem s))"
  by (simp_all add: fspr_pollset_add_def Let_def case_prod_beta submit_eq all_rings_def)

lemma rings_exclusive_add:
  assumes "rings_exclusive s"
  shows "rings_exclusive (snd (fspr_pollset_add accepts d s))"
proof -
  note t = take_elem_rings [OF assms]
  show ?thesis
  proof (cases "fst (fspr_pollset_add accepts d s) = APR_SUCCESS")
    case True
    with t show ?thesis
      by (simp add: rings_exclusive_def add_rings) (auto simp: all_rings_def)
  next
    case False
    with t show ?thesis
      by (simp add: rings_exclusive_def add_rings)
  qed
qed

lemma ring_find_mem: "ring_find pfd a ring = Some ep \<Longrightarrow> ep \<in> set ring"
  by (induction ring) (auto split: if_splits)

lemma remove_rings:
  "query_ring (snd (fspr_pollset_remove accepts d s)) =
     (case ring_find (elem_pfd s) (addr (desc d)) (query_ring s) of
        None \<Rightarrow> query_ring s | Some ep \<Rightarrow> remove1 ep (query_ring s))"
  "dead_ring (snd (fspr_pollset_remove accepts d s)) =
     (case ring_find (elem_pfd s) (addr (desc d)) (query_ring s) of
        None \<Rightarrow> dead_ring s | Some ep \<Rightarrow> dead_ring s @ [ep])"
  "free_ring (snd (fspr_pollset_remove accepts d s)) = free_ring s"
  "allocated (snd (fspr_pollset_remove accepts d s)) = allocated s"
  by (simp_all add: fspr_pollset_remove_def Let_def case_prod_beta submit_eq split: option.split)

lemma rings_exclusive_remove:
  assumes "rings_exclusive s"
  shows "rings_exclusive (snd (fspr_pollset_remove accepts d s))"
proof (cases "ring_find (elem_pfd s) (addr (desc d)) (query_ring s)")
  case None
  with assms show ?thesis
    by (simp add: rings_exclusive_def all_rings_def remove_rings)
next
  case (Some ep)
  then have "ep \<in> set (query_ring s)" by (rule ring_find_mem)
  moreover from assms have "distinct (query_ring s)"
    by (simp add: rings_exclusive_def all_rings_def)
  ultimately have "set (remove1 ep (query_ring s)) = set (query_ring s) - {ep}"
    by simp
  with assms Some \<open>ep \<in> set (query_ring s)\<close> show ?thesis
    by (auto simp: rings_exclusive_def all_rings_def remove_rings dest: notin_set_remove1)
qed

lemma poll_rings:
  assumes "fspr_pollset_poll ret evs neterr timeout want s = Inr (out, s')"
  shows "query_ring s' = query_ring s \<and> dead_ring s' = [] \<and>
         free_ring s' = free_ring s @ dead_ring s \<and> allocated s' = allocated s \<and>
         nelts s' = nelts s"
proof (cases "0 < ret")
  case False
  with assms show ?thesis
    by (auto simp: poll_nonpositive ring_concat_def kevent_wait_fields)
next
  case True
  with assms obtain s2 where
    f: "poll_fill (nat ret) 0 (snd (kevent_wait ret evs (poll_tvptr timeout) s)) = Inr s2"
    and s': "s' = ring_concat s2"
    by (auto simp: fspr_pollset_poll_def Let_def case_prod_beta kevent_wait_fields
        split: sum.splits)
  from poll_fill_shape [OF f] obtain rs where
    "s2 = snd (kevent_wait ret evs (poll_tvptr timeout) s)\<lparr>result_set := rs\<rparr>" ..
  with s' show ?thesis
    by (simp add: ring_concat_def kevent_wait_fields)
qed

lemma rings_exclusive_poll:
  assumes "fspr_pollset_poll ret evs neterr timeout want s = Inr (out, s')"
    and "rings_exclusive s"
  shows "rings_exclusive s'"
  using poll_rings [OF assms(1)] assms(2)
  by (auto simp: rings_exclusive_def all_rings_def)

lemma rings_exclusive_run:
  "run cs s = Inr s' \<Longrightarrow> rings_exclusive s \<Longrightarrow> rings_exclusive s'"
proof (induction cs s rule: run.induct)
  case (1 pollset)
  then show ?case by simp
next
  case (2 accepts descriptor cs pollset)
  then show ?case by (simp add: rings_exclusive_add)
next
  case (3 accepts descriptor cs pollset)
  then show ?case by (simp add: rings_exclusive_remove)
next
  case (4 ret evs neterr timeout want cs pollset)
  then show ?case
    by (auto split: sum.splits dest: rings_exclusive_poll)
qed

text \<open>
  C5. After every sequence of add, remove and poll calls on a created pollset, the three
  rings together hold each record ever taken from the pool exactly once: no record is
  on two rings or twice on one, every record is on some ring, and the sizes of the rings
  add up to the number of records allocated.
\<close>

theorem ring_exclusivity:
  assumes "fspr_pollset_create has_threads mutex_rv kqueue_ok sz flgs = (rv, Some s0)"
    and "run cs s0 = Inr s"
  shows "distinct (query_ring s @ dead_ring s @ free_ring s) \<and>
         set (query_ring s @ dead_ring s @ free_ring s) = {0..<allocated s} \<and>
         length (query_ring s) + length (dead_ring s) + length (free_ring s) = allocated s"
proof -
  from assms(1) have "s0 = init_pollset sz flgs"
    by (auto simp: fspr_pollset_create_def split: if_splits)
  then have "rings_exclusive s0" by (simp add: rings_exclusive_init)
  with assms(2) have r: "rings_exclusive s" by (rule rings_exclusive_run)
  then have d: "distinct (all_rings s)" and a: "set (all_rings s) = {0..<allocated s}"
    by (simp_all add: rings_exclusive_def)
  from d have "length (all_rings s) = card (set (all_rings s))"
    by (simp add: distinct_card)
  with a have "length (all_rings s) = allocated s" by simp
  with d a show ?thesis by (simp add: all_rings_def)
qed

lemma run_example_calls:
  "\<exists>s. run example_calls pollset4 = Inr s \<and>
     query_ring s = [1] \<and> dead_ring s = [] \<and> free_ring s = [0] \<and> allocated s = 2"
  by (simp add: example_calls_def poll_nonpositive ring_concat_def kevent_wait_fields
        op_defs os_fd_def example_defs poll_consts)

theorem ring_exclusivity_witness:
  "fspr_pollset_create False APR_SUCCESS True 4 0 = (APR_SUCCESS, Some pollset4) \<and>
   (case run example_calls pollset4 of
      Inl f \<Rightarrow> False
    | Inr s \<Rightarrow>
        query_ring s = [1] \<and> dead_ring s = [] \<and> free_ring s = [0] \<and> allocated s = 2 \<and>
        distinct (query_ring s @ dead_ring s @ free_ring s) \<and>
        set (query_ring s @ dead_ring s @ free_ring s) = {0..<allocated s} \<and>
        length (query_ring s) + length (dead_ring s) + length (free_ring s) = allocated s)"
proof -
  have c: "fspr_pollset_create False APR_SUCCESS True 4 0 = (APR_SUCCESS, Some pollset4)"
    by (simp add: fspr_pollset_create_def pollset4_def)
  from run_example_calls obtain s where
    r: "run example_calls pollset4 = Inr s" and
    f: "query_ring s = [1]" "dead_ring s = []" "free_ring s = [0]" "allocated s = 2"
    by blast
  from ring_exclusivity [OF c r] c r f show ?thesis
    by simp
qed

end
